theory Spec2Isabelle
  imports Main "HOL-Library.Sublist"
begin

section \<open>Text files and string helpers\<close>

text \<open>
  The editor operations of \<^verbatim>\<open>synthtool/languages/java.py\<close> open a file with
  \<^verbatim>\<open>open(filename, "r")\<close>, read it line by line with \<^verbatim>\<open>fp.readline()\<close>, build the list
  \<^verbatim>\<open>lines\<close> and write it back through \<^verbatim>\<open>open(filename, "w")\<close> with \<^verbatim>\<open>fp.write\<close>.
  A file is modelled by its content, a string of characters with code points below 256.
  Reading translates the line ends (see \<open>universal_newlines\<close>); writing is taken on a
  system whose line separator is \<^verbatim>\<open>\n\<close>, where \<^verbatim>\<open>fp.write\<close> stores the characters as
  they are.
\<close>

text \<open>Python's notion of a whitespace character (\<^verbatim>\<open>str.isspace\<close>, \<^verbatim>\<open>str.strip\<close> and the
  regular expression class \<^verbatim>\<open>\s\<close> agree on it), on the code points below 256.\<close>

definition isspace :: "char \<Rightarrow> bool" where
  "isspace c = (c \<in> set [CHR 0x09, CHR 0x0A, CHR 0x0B, CHR 0x0C, CHR 0x0D,
                          CHR 0x1C, CHR 0x1D, CHR 0x1E, CHR 0x1F, CHR 0x20,
                          CHR 0x85, CHR 0xA0])"

definition lstrip :: "string \<Rightarrow> string" where
  "lstrip s = dropWhile isspace s"

definition strip :: "string \<Rightarrow> string" where
  "strip s = rev (dropWhile isspace (rev (dropWhile isspace s)))"

text \<open>\<^verbatim>\<open>len(line) - len(line.lstrip())\<close>: the number of leading whitespace characters.\<close>

definition leading_spaces :: "string \<Rightarrow> nat" where
  "leading_spaces line = length line - length (lstrip line)"

text \<open>
  \<^verbatim>\<open>open(filename, "r")\<close> reads in universal newlines mode: the line ends \<^verbatim>\<open>\r\n\<close> and
  \<^verbatim>\<open>\r\<close> of the file are translated into \<^verbatim>\<open>\n\<close> before the program sees them.
\<close>

fun universal_newlines :: "string \<Rightarrow> string" where
  "universal_newlines [] = []"
| "universal_newlines (c # cs) =
     (if c = CHR 0x0D
      then CHR 0x0A # universal_newlines (if take 1 cs = [CHR 0x0A] then drop 1 cs else cs)
      else c # universal_newlines cs)"

text \<open>The successive results of \<^verbatim>\<open>fp.readline()\<close> on the translated text until it returns
  the empty string: every line keeps its terminating newline, the last line may lack
  one.\<close>

fun readlines :: "string \<Rightarrow> string list" where
  "readlines [] = []"
| "readlines (c # cs) =
     (if c = CHR 0x0A then [c] # readlines cs
      else (case readlines cs of [] \<Rightarrow> [[c]] | l # ls \<Rightarrow> (c # l) # ls))"

text \<open>\<^verbatim>\<open>str.replace(old, new)\<close>: all non-overlapping occurrences from the left; an empty
  \<^verbatim>\<open>old\<close> matches before every character and at the end.\<close>

fun replace :: "string \<Rightarrow> string \<Rightarrow> string \<Rightarrow> string" where
  "replace [] old new = (if old = [] then new else [])"
| "replace (c # cs) old new =
     (if old = [] then new @ c # replace cs old new
      else if prefix old (c # cs) then new @ replace (drop (length old) (c # cs)) old new
      else c # replace cs old new)"

text \<open>\<^verbatim>\<open>str.splitlines()\<close>: the line boundaries (on the code points below 256) are
  \<^verbatim>\<open>\n\<close>, \<^verbatim>\<open>\r\<close>, \<^verbatim>\<open>\r\n\<close>, \<^verbatim>\<open>\v\<close>, \<^verbatim>\<open>\f\<close>, \<^verbatim>\<open>\x1c\<close>, \<^verbatim>\<open>\x1d\<close>, \<^verbatim>\<open>\x1e\<close>
  and \<^verbatim>\<open>\x85\<close>; the boundaries are not part of the lines.\<close>

definition linebreak :: "char \<Rightarrow> bool" where
  "linebreak c = (c \<in> set [CHR 0x0A, CHR 0x0B, CHR 0x0C, CHR 0x0D,
                            CHR 0x1C, CHR 0x1D, CHR 0x1E, CHR 0x85])"

fun splitlines :: "string \<Rightarrow> string list" where
  "splitlines [] = []"
| "splitlines (c # cs) =
     (if linebreak c
      then [] # splitlines (if c = CHR 0x0D \<and> take 1 cs = [CHR 0x0A] then drop 1 cs else cs)
      else (case splitlines cs of [] \<Rightarrow> [[c]] | l # ls \<Rightarrow> (c # l) # ls))"

section \<open>The two regular expressions\<close>

text \<open>
  \<^verbatim>\<open>re.compile("(\\s*)" + re.escape(signature) + ".*").match(line)\<close>: the match is
  anchored at the start of the line, \<^verbatim>\<open>\s*\<close> is greedy and gives characters back one at
  a time, the signature is matched literally and \<^verbatim>\<open>.*\<close> always succeeds. So the
  matcher tries the whole leading whitespace first, then ever shorter prefixes of it.
  \<open>backtrack\<close> returns the length of group 1 of the first successful attempt.
\<close>

fun backtrack :: "string \<Rightarrow> string \<Rightarrow> nat \<Rightarrow> nat option" where
  "backtrack signature line 0 = (if prefix signature line then Some 0 else None)"
| "backtrack signature line (Suc k) =
     (if prefix signature (drop (Suc k) line) then Some (Suc k)
      else backtrack signature line k)"

text \<open>\<open>None\<close> when the line does not match, otherwise \<^verbatim>\<open>match.group(1)\<close>.\<close>

definition signature_match :: "string \<Rightarrow> string \<Rightarrow> string option" where
  "signature_match signature line =
     map_option (\<lambda>k. take k line)
       (backtrack signature line (length (takeWhile isspace line)))"

text \<open>\<^verbatim>\<open>re.compile(match.group(1) + "}").match(line)\<close>: group 1 consists of whitespace
  characters, which stand for themselves in a pattern, as does the brace; the match is
  anchored at the start of the line only.\<close>

definition leading_match :: "string \<Rightarrow> string \<Rightarrow> bool" where
  "leading_match g line = prefix (g @ ''}'') line"

section \<open>The editor operations\<close>

subsection \<open>\<^verbatim>\<open>remove_method\<close>\<close>

text \<open>The \<^verbatim>\<open>while line:\<close> loop; the state is \<^verbatim>\<open>leading_regex\<close> (\<open>None\<close>, or the
  group it was compiled from) and \<^verbatim>\<open>lines\<close>; the last argument is what is left to read.\<close>

fun remove_method_loop ::
  "string \<Rightarrow> string option \<Rightarrow> string list \<Rightarrow> string list \<Rightarrow> string list" where
  "remove_method_loop signature leading_regex lines [] = lines"
| "remove_method_loop signature leading_regex lines (line # fp) =
     (case signature_match signature line of
        Some g \<Rightarrow> remove_method_loop signature (Some g) lines fp
      | None \<Rightarrow>
          (case leading_regex of
             None \<Rightarrow> remove_method_loop signature None (lines @ [line]) fp
           | Some g \<Rightarrow>
               remove_method_loop signature
                 (if leading_match g line then None else Some g) lines fp))"

definition remove_method :: "string \<Rightarrow> string \<Rightarrow> string" where
  "remove_method F signature = concat (remove_method_loop signature None [] (readlines (universal_newlines F)))"

subsection \<open>\<^verbatim>\<open>copy_and_rename_method\<close>\<close>

text \<open>The parameters \<^verbatim>\<open>before\<close> and \<^verbatim>\<open>after\<close> are \<open>before_name\<close> and
  \<open>after_name\<close> here.\<close>

fun copy_and_rename_method_loop ::
  "string \<Rightarrow> string \<Rightarrow> string \<Rightarrow> string option \<Rightarrow> string list \<Rightarrow> string list
    \<Rightarrow> string list \<Rightarrow> string list" where
  "copy_and_rename_method_loop signature before_name after_name leading_regex lines method [] = lines"
| "copy_and_rename_method_loop signature before_name after_name leading_regex lines method (line # fp) =
     (case signature_match signature line of
        Some g \<Rightarrow>
          copy_and_rename_method_loop signature before_name after_name (Some g)
            (lines @ [line]) (method @ [replace line before_name after_name]) fp
      | None \<Rightarrow>
          (case leading_regex of
             None \<Rightarrow>
               copy_and_rename_method_loop signature before_name after_name None
                 (lines @ [line]) method fp
           | Some g \<Rightarrow>
               (if leading_match g line
                then copy_and_rename_method_loop signature before_name after_name None
                       (lines @ [line] @ [[CHR 0x0A]] @ (method @ [line])) (method @ [line]) fp
                else copy_and_rename_method_loop signature before_name after_name (Some g)
                       (lines @ [line]) (method @ [line]) fp)))"

definition copy_and_rename_method :: "string \<Rightarrow> string \<Rightarrow> string \<Rightarrow> string \<Rightarrow> string" where
  "copy_and_rename_method F signature before_name after_name =
     concat (copy_and_rename_method_loop signature before_name after_name None [] [] (readlines (universal_newlines F)))"

subsection \<open>\<^verbatim>\<open>add_javadoc\<close>\<close>

text \<open>\<^verbatim>\<open>lines.pop()\<close> raises \<^verbatim>\<open>IndexError\<close> on an empty list.\<close>

datatype error = IndexError

text \<open>A line whose \<^verbatim>\<open>lstrip()\<close> is non-empty and starts with \<^verbatim>\<open>@\<close>.\<close>

definition is_annotation :: "string \<Rightarrow> bool" where
  "is_annotation last_line =
     (case lstrip last_line of [] \<Rightarrow> False | c # _ \<Rightarrow> c = CHR ''@'')"

text \<open>The inner loop
  \<^verbatim>\<open>while last_line.lstrip() and last_line.lstrip()[0] == "@":
      annotations.append(last_line); last_line = lines.pop()\<close>.\<close>

function collect_annotations ::
  "string list \<Rightarrow> string list \<Rightarrow> string \<Rightarrow> error + (string list \<times> string list \<times> string)" where
  "collect_annotations lines annotations last_line =
     (if is_annotation last_line
      then (if lines = [] then Inl IndexError
            else collect_annotations (butlast lines) (annotations @ [last_line]) (last lines))
      else Inr (lines, annotations, last_line))"
  by pat_completeness auto
termination
  by (relation "measure (\<lambda>(lines, annotations, last_line). length lines)") auto

text \<open>The \<^verbatim>\<open>for content_line in content\<close> loop with its \<^verbatim>\<open>first\<close> flag.\<close>

fun content_lines :: "string \<Rightarrow> string \<Rightarrow> string list \<Rightarrow> string list" where
  "content_lines indent javadoc_type [] = []"
| "content_lines indent javadoc_type (content_line # content) =
     (indent @ '' * @'' @ javadoc_type @ '' '' @ content_line @ [CHR 0x0A])
     # map (\<lambda>content_line. indent @ '' *   '' @ content_line @ [CHR 0x0A]) content"

fun add_javadoc_loop ::
  "string \<Rightarrow> string \<Rightarrow> string list \<Rightarrow> string list \<Rightarrow> string list \<Rightarrow> string list
    \<Rightarrow> error + string list" where
  "add_javadoc_loop signature javadoc_type content lines annotations [] = Inr lines"
| "add_javadoc_loop signature javadoc_type content lines annotations (line # fp) =
     (case signature_match signature line of
        None \<Rightarrow> add_javadoc_loop signature javadoc_type content (lines @ [line]) annotations fp
      | Some g \<Rightarrow>
          (let indent = replicate (leading_spaces line) (CHR '' '') in
           if lines = [] then Inl IndexError
           else
             (case collect_annotations (butlast lines) annotations (last lines) of
                Inl e \<Rightarrow> Inl e
              | Inr (lines1, annotations1, last_line) \<Rightarrow>
                  (let lines2 =
                     (if strip last_line = ''*/''
                      then lines1 @ content_lines indent javadoc_type content @ [last_line]
                      else lines1 @ [last_line] @ [indent @ ''/**'' @ [CHR 0x0A]]
                           @ content_lines indent javadoc_type content
                           @ [indent @ '' */'' @ [CHR 0x0A]])
                   in add_javadoc_loop signature javadoc_type content
                        (lines2 @ rev annotations1 @ [line]) annotations1 fp))))"

text \<open>The file is rewritten only when the loop has finished; an exception leaves it
  as it was and reaches the caller.\<close>

definition add_javadoc :: "string \<Rightarrow> string \<Rightarrow> string \<Rightarrow> string list \<Rightarrow> error + string" where
  "add_javadoc F signature javadoc_type content =
     (case add_javadoc_loop signature javadoc_type content [] [] (readlines (universal_newlines F)) of
        Inl e \<Rightarrow> Inl e
      | Inr lines \<Rightarrow> Inr (concat lines))"

subsection \<open>\<^verbatim>\<open>annotate_method\<close>\<close>

fun annotate_method_loop :: "string \<Rightarrow> string \<Rightarrow> string list \<Rightarrow> string list \<Rightarrow> string list" where
  "annotate_method_loop signature annotation lines [] = lines"
| "annotate_method_loop signature annotation lines (line # fp) =
     (case signature_match signature line of
        Some g \<Rightarrow>
          (let indent = replicate (leading_spaces line) (CHR '' '') in
           annotate_method_loop signature annotation
             (lines @ [indent @ annotation @ [CHR 0x0A]] @ [line]) fp)
      | None \<Rightarrow> annotate_method_loop signature annotation (lines @ [line]) fp)"

definition annotate_method :: "string \<Rightarrow> string \<Rightarrow> string \<Rightarrow> string" where
  "annotate_method F signature annotation =
     concat (annotate_method_loop signature annotation [] (readlines (universal_newlines F)))"

subsection \<open>\<^verbatim>\<open>deprecate_method\<close>\<close>

text \<open>\<^verbatim>\<open>add_javadoc\<close> on the file, then \<^verbatim>\<open>annotate_method\<close> on the file it wrote.\<close>

definition deprecate_method :: "string \<Rightarrow> string \<Rightarrow> string \<Rightarrow> error + string" where
  "deprecate_method F signature alternative =
     (case add_javadoc F signature ''deprecated'' (splitlines alternative) of
        Inl e \<Rightarrow> Inl e
      | Inr F' \<Rightarrow> Inr (annotate_method F' signature ''@Deprecated''))"

section \<open>Vocabulary of the statements\<close>

text \<open>In the statements, the lines of a file \<open>F\<close> are the lines the program reads:
  \<open>readlines (universal_newlines F)\<close>.\<close>

text \<open>The line matches the signature pattern.\<close>

definition matches :: "string \<Rightarrow> string \<Rightarrow> bool" where
  "matches signature line = (signature_match signature line \<noteq> None)"

text \<open>\<^verbatim>\<open>indent = leading_spaces * " "\<close> of \<^verbatim>\<open>add_javadoc\<close> and \<^verbatim>\<open>annotate_method\<close>.\<close>

definition indent_of :: "string \<Rightarrow> string" where
  "indent_of line = replicate (leading_spaces line) (CHR '' '')"

text \<open>
  A block as the loops delimit it: the line \<open>l\<close> matches the signature and captures the
  group \<open>g\<close>; no line of the body \<open>B\<close> matches the signature or starts with \<open>g\<close> and a
  closing brace; the line \<open>c\<close> starts with \<open>g\<close> and a closing brace (and does not match
  the signature).
\<close>

definition is_block :: "string \<Rightarrow> string \<Rightarrow> string list \<Rightarrow> string \<Rightarrow> bool" where
  "is_block signature l B c =
     (case signature_match signature l of
        None \<Rightarrow> False
      | Some g \<Rightarrow>
          (\<forall>b\<in>set B. \<not> matches signature b \<and> \<not> leading_match g b)
          \<and> \<not> matches signature c \<and> leading_match g c)"

text \<open>A closing line in the stricter sense: its whole trimmed content is a closing brace
  and its leading whitespace is \<open>g\<close>.\<close>

definition closing_line :: "string \<Rightarrow> string \<Rightarrow> bool" where
  "closing_line g line = (strip line = ''}'' \<and> takeWhile isspace line = g)"

text \<open>A line that ends with its only newline.\<close>

definition terminated :: "string \<Rightarrow> bool" where
  "terminated l = (l \<noteq> [] \<and> last l = CHR 0x0A \<and> CHR 0x0A \<notin> set (butlast l))"





text \<open>
  What \<^verbatim>\<open>add_javadoc\<close> leaves in place of the line \<open>last_line\<close> it stops at, for the
  tagged lines \<open>body\<close>: they go before the line when it closes a comment; otherwise a new
  comment follows the line.
\<close>

definition javadoc_header :: "string \<Rightarrow> string list \<Rightarrow> string \<Rightarrow> string list" where
  "javadoc_header indent body last_line =
     (if strip last_line = ''*/'' then body @ [last_line]
      else [last_line, indent @ ''/**\<newline>''] @ body @ [indent @ '' */\<newline>''])"

text \<open>
  The surroundings of one matching line \<open>l\<close> for \<^verbatim>\<open>add_javadoc\<close>: the lines \<open>P\<close>, then
  a line \<open>x\<close> that is not an annotation line, then the annotation lines \<open>A\<close>, then \<open>l\<close>;
  no line before \<open>l\<close> matches the signature.
\<close>

type_synonym segment = "string list \<times> string \<times> string list \<times> string"

fun segment_lines :: "segment \<Rightarrow> string list" where
  "segment_lines (P, x, A, l) = P @ x # A @ [l]"

fun is_segment :: "string \<Rightarrow> segment \<Rightarrow> bool" where
  "is_segment signature (P, x, A, l) =
     ((\<forall>p\<in>set (P @ x # A). \<not> matches signature p)
      \<and> \<not> is_annotation x \<and> (\<forall>a\<in>set A. is_annotation a) \<and> matches signature l)"

text \<open>
  The lines \<^verbatim>\<open>add_javadoc\<close> is claimed to write for a sequence of segments, when
  \<open>earlier\<close> are the annotation lines found above the matching lines seen so far, the
  nearest match first: above each matching line come its own annotation lines and then
  those of the earlier matches.
\<close>

fun javadoc_output :: "string \<Rightarrow> string list \<Rightarrow> string list \<Rightarrow> segment list \<Rightarrow> string list" where
  "javadoc_output javadoc_type content earlier [] = []"
| "javadoc_output javadoc_type content earlier ((P, x, A, l) # segs) =
     P @ javadoc_header (indent_of l) (content_lines (indent_of l) javadoc_type content) x
       @ A @ earlier @ [l]
       @ javadoc_output javadoc_type content (A @ earlier) segs"

text \<open>A signature that starts like a declaration: with a character that is neither
  whitespace nor one of \<^verbatim>\<open>/\<close>, \<^verbatim>\<open>*\<close> and \<^verbatim>\<open>@\<close>, so that it matches none of the lines
  that \<^verbatim>\<open>add_javadoc\<close> and \<^verbatim>\<open>annotate_method\<close> insert.\<close>

definition plain_signature :: "string \<Rightarrow> bool" where
  "plain_signature signature =
     (case signature of
        [] \<Rightarrow> False
      | c # _ \<Rightarrow> \<not> isspace c \<and> c \<noteq> CHR ''/'' \<and> c \<noteq> CHR ''*'' \<and> c \<noteq> CHR ''@'')"

text \<open>The characters \<open>a\<close> and \<open>b\<close> stand next to each other, in this order, in the string.\<close>

fun adjacent :: "char \<Rightarrow> char \<Rightarrow> string \<Rightarrow> bool" where
  "adjacent a b [] = False"
| "adjacent a b [x] = False"
| "adjacent a b (x # y # zs) = ((x = a \<and> y = b) \<or> adjacent a b (y # zs))"

text \<open>The string contains a comment-open marker \<^verbatim>\<open>/*\<close> (as \<^verbatim>\<open>/**\<close> does) or a comment-close
  marker \<^verbatim>\<open>*/\<close>.\<close>

definition comment_marker :: "string \<Rightarrow> bool" where
  "comment_marker s = (adjacent (CHR ''/'') (CHR ''*'') s \<or> adjacent (CHR ''*'') (CHR ''/'') s)"

declare collect_annotations.simps [simp del]

lemmas evaluation =
  signature_match_def isspace_def leading_match_def matches_def is_block_def
  remove_method_def copy_and_rename_method_def closing_line_def strip_def lstrip_def
  is_annotation_def leading_spaces_def indent_of_def javadoc_header_def add_javadoc_def
  annotate_method_def deprecate_method_def linebreak_def plain_signature_def
  comment_marker_def

section \<open>Reading lines\<close>

lemma concat_readlines: "concat (readlines F) = F"
  by (induction F) (auto split: list.splits)

lemma terminated_iff: "terminated l \<longleftrightarrow> (\<exists>b. l = b @ [CHR 0x0A] \<and> CHR 0x0A \<notin> set b)"
proof
  assume t: "terminated l"
  then have "l = butlast l @ [CHR 0x0A]"
    unfolding terminated_def by (metis append_butlast_last_id)
  with t show "\<exists>b. l = b @ [CHR 0x0A] \<and> CHR 0x0A \<notin> set b"
    unfolding terminated_def by blast
next
  assume "\<exists>b. l = b @ [CHR 0x0A] \<and> CHR 0x0A \<notin> set b"
  then show "terminated l" by (auto simp: terminated_def)
qed

lemma readlines_terminated_append:
  "CHR 0x0A \<notin> set b \<Longrightarrow> readlines (b @ CHR 0x0A # s) = (b @ [CHR 0x0A]) # readlines s"
  by (induction b) auto

lemma readlines_concat_terminated:
  "\<forall>t\<in>set ts. terminated t \<Longrightarrow> readlines (concat ts @ s) = ts @ readlines s"
proof (induction ts)
  case Nil
  then show ?case by simp
next
  case (Cons t ts)
  then obtain b where b: "t = b @ [CHR 0x0A]" "CHR 0x0A \<notin> set b"
    by (auto simp: terminated_iff)
  have "readlines (concat (t # ts) @ s) = readlines (b @ CHR 0x0A # (concat ts @ s))"
    using b by simp
  also have "\<dots> = t # readlines (concat ts @ s)"
    using b by (simp add: readlines_terminated_append)
  finally show ?case using Cons by simp
qed

lemma terminated_Cons: "c \<noteq> CHR 0x0A \<Longrightarrow> terminated l \<Longrightarrow> terminated (c # l)"
  unfolding terminated_iff
  by (metis append_Cons set_ConsD)

lemma readlines_Cons_decomp:
  "readlines F = t # rest \<Longrightarrow>
     (rest \<noteq> [] \<longrightarrow> terminated t) \<and> readlines (concat rest) = rest"
proof (induction F arbitrary: t rest)
  case Nil
  then show ?case by simp
next
  case (Cons c cs)
  show ?case
  proof (cases "c = CHR 0x0A")
    case True
    with Cons.prems have "t = [c]" "rest = readlines cs" by auto
    then show ?thesis using True by (auto simp: terminated_iff concat_readlines)
  next
    case False
    show ?thesis
    proof (cases "readlines cs")
      case Nil
      with Cons.prems False show ?thesis by auto
    next
      case (Cons l ls)
      with Cons.prems False have t: "t = c # l" "rest = ls" by auto
      from Cons.IH[OF Cons]
      have "(ls \<noteq> [] \<longrightarrow> terminated l) \<and> readlines (concat ls) = ls" .
      then show ?thesis using t False by (auto intro: terminated_Cons)
    qed
  qed
qed

text \<open>Every line but the last is terminated, and a tail of the lines of a file reads
  back as itself.\<close>

lemma readlines_split:
  "readlines F = ts @ q # qs \<Longrightarrow>
     (\<forall>t\<in>set ts. terminated t) \<and> readlines (concat (q # qs)) = q # qs"
proof (induction ts arbitrary: F)
  case Nil
  then show ?case by (metis append_Nil concat_readlines empty_iff list.set(1))
next
  case (Cons t ts)
  from Cons.prems have r: "readlines F = t # (ts @ q # qs)" by simp
  from readlines_Cons_decomp[OF r]
  have 1: "terminated t" and 2: "readlines (concat (ts @ q # qs)) = ts @ q # qs"
    by auto
  from Cons.IH[OF 2] show ?case using 1 by simp
qed

section \<open>The loops on lines that do not match, and on one block\<close>

lemma remove_loop_outside:
  "\<forall>p\<in>set P. \<not> matches S p \<Longrightarrow>
     remove_method_loop S None L (P @ fp) = remove_method_loop S None (L @ P) fp"
  by (induction P arbitrary: L) (auto simp: matches_def)

lemma remove_loop_inside:
  "\<forall>b\<in>set B. \<not> matches S b \<and> \<not> leading_match g b \<Longrightarrow>
     remove_method_loop S (Some g) L (B @ fp) = remove_method_loop S (Some g) L fp"
  by (induction B) (auto simp: matches_def)

lemma remove_loop_block:
  assumes "is_block S l B c"
  shows "remove_method_loop S lead L (l # B @ c # fp) = remove_method_loop S None L fp"
proof -
  from assms obtain g where g: "signature_match S l = Some g"
    and B: "\<forall>b\<in>set B. \<not> matches S b \<and> \<not> leading_match g b"
    and c: "\<not> matches S c" "leading_match g c"
    by (auto simp: is_block_def split: option.splits)
  have "remove_method_loop S lead L (l # B @ c # fp)
      = remove_method_loop S (Some g) L (B @ c # fp)"
    using g by simp
  also have "\<dots> = remove_method_loop S (Some g) L (c # fp)"
    using B by (rule remove_loop_inside)
  also have "\<dots> = remove_method_loop S None L fp"
    using c by (simp add: matches_def)
  finally show ?thesis .
qed


lemma copy_loop_outside:
  "\<forall>p\<in>set P. \<not> matches S p \<Longrightarrow>
     copy_and_rename_method_loop S b a None L M (P @ fp)
       = copy_and_rename_method_loop S b a None (L @ P) M fp"
  by (induction P arbitrary: L) (auto simp: matches_def)

lemma copy_loop_inside:
  "\<forall>x\<in>set B. \<not> matches S x \<and> \<not> leading_match g x \<Longrightarrow>
     copy_and_rename_method_loop S b a (Some g) L M (B @ fp)
       = copy_and_rename_method_loop S b a (Some g) (L @ B) (M @ B) fp"
  by (induction B arbitrary: L M) (auto simp: matches_def)

lemma copy_loop_block:
  assumes "is_block S l B c"
  shows "copy_and_rename_method_loop S b a lead L M (l # B @ c # fp)
       = copy_and_rename_method_loop S b a None
           (L @ l # B @ [c] @ [''\<newline>''] @ (M @ replace l b a # B @ [c]))
           (M @ replace l b a # B @ [c]) fp"
proof -
  from assms obtain g where g: "signature_match S l = Some g"
    and B: "\<forall>b\<in>set B. \<not> matches S b \<and> \<not> leading_match g b"
    and c: "\<not> matches S c" "leading_match g c"
    by (auto simp: is_block_def split: option.splits)
  have "copy_and_rename_method_loop S b a lead L M (l # B @ c # fp)
      = copy_and_rename_method_loop S b a (Some g) (L @ [l]) (M @ [replace l b a]) (B @ c # fp)"
    using g by simp
  also have "\<dots> = copy_and_rename_method_loop S b a (Some g)
                     ((L @ [l]) @ B) ((M @ [replace l b a]) @ B) (c # fp)"
    using B by (rule copy_loop_inside)
  also have "\<dots> = copy_and_rename_method_loop S b a None
           (L @ l # B @ [c] @ [''\<newline>''] @ (M @ replace l b a # B @ [c]))
           (M @ replace l b a # B @ [c]) fp"
    using c by (simp add: matches_def)
  finally show ?thesis .
qed


lemma add_javadoc_loop_outside:
  "\<forall>p\<in>set P. \<not> matches S p \<Longrightarrow>
     add_javadoc_loop S t c L anns (P @ fp) = add_javadoc_loop S t c (L @ P) anns fp"
  by (induction P arbitrary: L) (auto simp: matches_def)

lemma annotate_loop_outside:
  "\<forall>p\<in>set P. \<not> matches S p \<Longrightarrow>
     annotate_method_loop S a L (P @ fp) = annotate_method_loop S a (L @ P) fp"
  by (induction P arbitrary: L) (auto simp: matches_def)

lemma annotate_loop_match:
  "matches S l \<Longrightarrow>
     annotate_method_loop S a L (l # fp)
       = annotate_method_loop S a (L @ [indent_of l @ a @ ''\<newline>'', l]) fp"
  by (auto simp: matches_def indent_of_def)

section \<open>Several blocks\<close>



section \<open>The loop of \<^verbatim>\<open>add_javadoc\<close>\<close>

lemma collect_annotations_run:
  "\<not> is_annotation x \<Longrightarrow> \<forall>a\<in>set A. is_annotation a \<Longrightarrow>
     collect_annotations (butlast (L @ x # A)) anns (last (L @ x # A))
       = Inr (L, anns @ rev A, x)"
proof (induction A arbitrary: anns rule: rev_induct)
  case Nil
  then show ?case by (simp add: collect_annotations.simps)
next
  case (snoc a A)
  have "collect_annotations (butlast (L @ x # A @ [a])) anns (last (L @ x # A @ [a]))
      = collect_annotations (L @ x # A) anns a"
    by (simp add: butlast_append)
  also have "\<dots> = collect_annotations (butlast (L @ x # A)) (anns @ [a]) (last (L @ x # A))"
    using snoc.prems by (subst collect_annotations.simps) simp
  also have "\<dots> = Inr (L, (anns @ [a]) @ rev A, x)"
    using snoc.prems by (intro snoc.IH) auto
  finally show ?case by simp
qed

lemma add_javadoc_loop_match:
  assumes "matches S l" "\<not> is_annotation x" "\<forall>a\<in>set A. is_annotation a"
  shows "add_javadoc_loop S t c (L @ x # A) anns (l # fp)
       = add_javadoc_loop S t c
           (L @ javadoc_header (indent_of l) (content_lines (indent_of l) t c) x
              @ A @ rev anns @ [l])
           (anns @ rev A) fp"
proof -
  from assms(1) obtain g where g: "signature_match S l = Some g"
    by (auto simp: matches_def)
  show ?thesis
    using g collect_annotations_run[OF assms(2,3), of L anns]
    by (simp add: javadoc_header_def indent_of_def Let_def)
qed

lemma add_javadoc_loop_segment:
  assumes "is_segment S (P, x, A, l)"
  shows "add_javadoc_loop S t c L anns (P @ x # A @ l # fp)
       = add_javadoc_loop S t c
           (L @ P @ javadoc_header (indent_of l) (content_lines (indent_of l) t c) x
              @ A @ rev anns @ [l])
           (anns @ rev A) fp"
proof -
  have nm: "\<forall>p\<in>set (P @ x # A). \<not> matches S p" and x: "\<not> is_annotation x"
    and A: "\<forall>a\<in>set A. is_annotation a" and l: "matches S l"
    using assms by auto
  have "add_javadoc_loop S t c L anns ((P @ x # A) @ l # fp)
      = add_javadoc_loop S t c (L @ P @ x # A) anns (l # fp)"
    using add_javadoc_loop_outside[OF nm, where L=L and fp="l # fp"] by simp
  also have "\<dots> = add_javadoc_loop S t c
           ((L @ P) @ javadoc_header (indent_of l) (content_lines (indent_of l) t c) x
              @ A @ rev anns @ [l])
           (anns @ rev A) fp"
    using add_javadoc_loop_match[OF l x A, where L="L @ P"] by simp
  finally show ?thesis by simp
qed

lemma add_javadoc_loop_segments:
  assumes "\<forall>s\<in>set segs. is_segment S s" "\<forall>r\<in>set R. \<not> matches S r"
  shows "add_javadoc_loop S t c L anns (concat (map segment_lines segs) @ R)
       = Inr (L @ javadoc_output t c (rev anns) segs @ R)"
  using assms(1)
proof (induction segs arbitrary: L anns)
  case Nil
  show ?case using add_javadoc_loop_outside[OF assms(2), where fp="[]"] by simp
next
  case (Cons s segs)
  obtain P x A l where s: "s = (P, x, A, l)" by (cases s) auto
  have seg: "is_segment S (P, x, A, l)" using Cons.prems s by simp
  have rest: "\<forall>s\<in>set segs. is_segment S s" using Cons.prems by simp
  have "add_javadoc_loop S t c L anns (concat (map segment_lines (s # segs)) @ R)
      = add_javadoc_loop S t c L anns (P @ x # A @ l # (concat (map segment_lines segs) @ R))"
    by (simp add: s)
  also have "\<dots> = add_javadoc_loop S t c
           (L @ P @ javadoc_header (indent_of l) (content_lines (indent_of l) t c) x
              @ A @ rev anns @ [l])
           (anns @ rev A) (concat (map segment_lines segs) @ R)"
    by (rule add_javadoc_loop_segment[OF seg])
  also have "\<dots> = Inr ((L @ P @ javadoc_header (indent_of l) (content_lines (indent_of l) t c) x
              @ A @ rev anns @ [l]) @ javadoc_output t c (rev (anns @ rev A)) segs @ R)"
    by (rule Cons.IH[OF rest])
  finally show ?case by (simp add: s)
qed

section \<open>Whitespace, inserted lines and \<^verbatim>\<open>annotate_method\<close>\<close>

lemma leading_spaces_takeWhile: "leading_spaces l = length (takeWhile isspace l)"
proof -
  have "length (takeWhile isspace l @ dropWhile isspace l) = length l" by simp
  then show ?thesis unfolding leading_spaces_def lstrip_def length_append by linarith
qed

lemma lstrip_indent:
  assumes "\<not> isspace d"
  shows "lstrip (replicate n (CHR '' '') @ d # s) = d # s"
proof -
  have "\<And>x. x \<in> set (replicate n (CHR '' '')) \<Longrightarrow> isspace x"
    by (auto simp: isspace_def)
  then have "dropWhile isspace (replicate n (CHR '' '') @ d # s) = dropWhile isspace (d # s)"
    by (rule dropWhile_append2)
  then show ?thesis using assms by (simp add: lstrip_def)
qed

lemma strip_prefix_lstrip: "prefix (strip s) (lstrip s)"
proof -
  let ?u = "dropWhile isspace s"
  have "rev ?u = takeWhile isspace (rev ?u) @ dropWhile isspace (rev ?u)" by simp
  then have "rev (rev ?u) = rev (takeWhile isspace (rev ?u) @ dropWhile isspace (rev ?u))"
    by simp
  then have "?u = rev (dropWhile isspace (rev ?u)) @ rev (takeWhile isspace (rev ?u))"
    by (simp only: rev_rev_ident rev_append)
  then show ?thesis unfolding strip_def lstrip_def by (metis prefixI)
qed

text \<open>A closing line in the stricter sense also closes a block for the loops.\<close>

lemma closing_line_leading_match:
  assumes "closing_line g line"
  shows "leading_match g line"
proof -
  have "prefix (strip line) (lstrip line)" by (rule strip_prefix_lstrip)
  then obtain r where r: "lstrip line = ''}'' @ r"
    using assms by (auto simp: closing_line_def prefix_def)
  have g: "takeWhile isspace line = g" and d: "dropWhile isspace line = ''}'' @ r"
    using assms r by (simp_all add: closing_line_def lstrip_def)
  have "takeWhile isspace line @ dropWhile isspace line = line"
    by (rule takeWhile_dropWhile_id)
  then have "line = g @ ''}'' @ r"
    unfolding g d by simp
  then show ?thesis by (simp add: leading_match_def)
qed

lemma strip_lstrip: "strip s = rev (dropWhile isspace (rev (lstrip s)))"
  by (simp add: strip_def lstrip_def)


lemma content_lines_lstrip:
  "y \<in> set (content_lines (replicate n (CHR '' '')) t c) \<Longrightarrow>
     \<exists>s. lstrip y = CHR ''*'' # CHR '' '' # s"
proof (cases c)
  case Nil
  assume "y \<in> set (content_lines (replicate n (CHR '' '')) t c)"
  with Nil show ?thesis by simp
next
  case (Cons c1 cs)
  assume "y \<in> set (content_lines (replicate n (CHR '' '')) t c)"
  with Cons consider
      "y = replicate n (CHR '' '') @ '' * @'' @ t @ '' '' @ c1 @ ''\<newline>''"
    | d where "y = replicate n (CHR '' '') @ '' *   '' @ d @ ''\<newline>''"
    by auto
  then show ?thesis
  proof cases
    case 1
    have "lstrip (replicate (Suc n) (CHR '' '') @ CHR ''*'' # ('' @'' @ t @ '' '' @ c1 @ ''\<newline>''))
        = CHR ''*'' # ('' @'' @ t @ '' '' @ c1 @ ''\<newline>'')"
      by (rule lstrip_indent) (simp add: isspace_def)
    then show ?thesis using 1 by (simp add: replicate_app_Cons_same)
  next
    case 2
    have "lstrip (replicate (Suc n) (CHR '' '') @ CHR ''*'' # (''   '' @ d @ ''\<newline>''))
        = CHR ''*'' # (''   '' @ d @ ''\<newline>'')"
      by (rule lstrip_indent) (simp add: isspace_def)
    then show ?thesis using 2 by (simp add: replicate_app_Cons_same)
  qed
qed

lemma annotate_loop_single:
  assumes "\<forall>q\<in>set Q. \<not> matches S q" "matches S l" "\<forall>r\<in>set R. \<not> matches S r"
  shows "annotate_method_loop S a [] (Q @ l # R) = Q @ (indent_of l @ a @ ''\<newline>'') # l # R"
proof -
  have "annotate_method_loop S a [] (Q @ l # R) = annotate_method_loop S a ([] @ Q) (l # R)"
    using assms(1) by (rule annotate_loop_outside)
  also have "\<dots> = annotate_method_loop S a (Q @ [indent_of l @ a @ ''\<newline>'', l]) (R @ [])"
    using annotate_loop_match[OF assms(2)] by simp
  also have "\<dots> = (Q @ [indent_of l @ a @ ''\<newline>'', l]) @ R"
    using annotate_loop_outside[OF assms(3), where fp="[]"] by simp
  finally show ?thesis by simp
qed

lemma add_javadoc_loop_single:
  assumes "is_segment S (P, x, A, l)" "\<forall>r\<in>set R. \<not> matches S r"
  shows "add_javadoc_loop S t c [] [] (P @ x # A @ l # R)
       = Inr (P @ javadoc_header (indent_of l) (content_lines (indent_of l) t c) x @ A @ l # R)"
  using add_javadoc_loop_segments[where segs="[(P, x, A, l)]" and L="[]" and anns="[]", OF _ assms(2)]
    assms(1)
  by simp

lemma backtrack_Some: "backtrack S y k = Some j \<Longrightarrow> j \<le> k \<and> prefix S (drop j y)"
  by (induction k) (auto split: if_splits)

lemma matches_lstrip:
  assumes "S \<noteq> []" "\<not> isspace (hd S)" "matches S y"
  shows "prefix S (lstrip y)"
proof -
  let ?k = "length (takeWhile isspace y)"
  from assms(3) obtain j where j: "backtrack S y ?k = Some j"
    by (auto simp: matches_def signature_match_def)
  from backtrack_Some[OF j] have jk: "j \<le> ?k" and p: "prefix S (drop j y)" by auto
  have "j = ?k"
  proof (rule ccontr)
    assume "j \<noteq> ?k"
    with jk have lt: "j < ?k" by simp
    then have "j < length y" using length_takeWhile_le[of isspace y] by (simp add: less_le_trans)
    then have d: "drop j y = y ! j # drop (Suc j) y" by (simp add: Cons_nth_drop_Suc)
    have "isspace (y ! j)" using lt by (metis nth_mem set_takeWhileD takeWhile_nth)
    moreover have "hd S = y ! j" using p d assms(1) by (cases S) auto
    ultimately show False using assms(2) by simp
  qed
  then have "drop j y = lstrip y" by (simp add: lstrip_def dropWhile_eq_drop)
  with p show ?thesis by simp
qed

lemma plain_signature_no_match:
  assumes "plain_signature S" "lstrip y = d # s" "d = CHR ''/'' \<or> d = CHR ''*'' \<or> d = CHR ''@''"
  shows "\<not> matches S y"
proof
  assume m: "matches S y"
  from assms(1) obtain c cs where S: "S = c # cs" and c: "\<not> isspace c"
      "c \<noteq> CHR ''/''" "c \<noteq> CHR ''*''" "c \<noteq> CHR ''@''"
    by (auto simp: plain_signature_def split: list.splits)
  have "prefix S (lstrip y)" using matches_lstrip[OF _ _ m] S c by simp
  then have "c = d" using S assms(2) by simp
  with c assms(3) show False by simp
qed

lemma splitlines_no_newline: "\<forall>c\<in>set (splitlines s). CHR 0x0A \<notin> set c"
proof (induction s rule: splitlines.induct)
  case 1
  then show ?case by simp
next
  case (2 c cs)
  show ?case
  proof (cases "linebreak c")
    case True
    then show ?thesis using 2(1) by simp
  next
    case False
    then have "c \<noteq> CHR 0x0A" by (auto simp: linebreak_def)
    then show ?thesis using 2(2) False by (auto split: list.splits)
  qed
qed

lemma terminatedI: "CHR 0x0A \<notin> set b \<Longrightarrow> terminated (b @ ''\<newline>'')"
  by (auto simp: terminated_iff)

lemma content_lines_terminated:
  assumes "CHR 0x0A \<notin> set indent" "CHR 0x0A \<notin> set t" "\<forall>c\<in>set cs. CHR 0x0A \<notin> set c"
  shows "\<forall>y\<in>set (content_lines indent t cs). terminated y"
proof (cases cs)
  case Nil
  then show ?thesis by simp
next
  case (Cons c1 cs')
  have 1: "terminated ((indent @ '' * @'' @ t @ '' '' @ c1) @ ''\<newline>'')"
    using assms Cons by (intro terminatedI) auto
  have 2: "terminated ((indent @ '' *   '' @ d) @ ''\<newline>'')" if "d \<in> set cs'" for d
    using assms Cons that by (intro terminatedI) auto
  show ?thesis using 1 2 Cons by auto
qed

lemma close_line_facts:
  "lstrip (indent_of l @ '' */\<newline>'') = ''*/\<newline>''"
  "strip (indent_of l @ '' */\<newline>'') = ''*/''"
  "\<not> is_annotation (indent_of l @ '' */\<newline>'')"
proof -
  have "lstrip (replicate (Suc (leading_spaces l)) (CHR '' '') @ CHR ''*'' # ''/\<newline>'') = CHR ''*'' # ''/\<newline>''"
    by (rule lstrip_indent) (simp add: isspace_def)
  then show 1: "lstrip (indent_of l @ '' */\<newline>'') = ''*/\<newline>''"
    by (simp add: indent_of_def replicate_app_Cons_same)
  show "strip (indent_of l @ '' */\<newline>'') = ''*/''"
    unfolding strip_lstrip 1 by (simp add: isspace_def)
  show "\<not> is_annotation (indent_of l @ '' */\<newline>'')"
    unfolding is_annotation_def 1 by simp
qed

lemma open_line_lstrip: "lstrip (indent_of l @ ''/**\<newline>'') = ''/**\<newline>''"
proof -
  have "lstrip (replicate (leading_spaces l) (CHR '' '') @ CHR ''/'' # ''**\<newline>'') = CHR ''/'' # ''**\<newline>''"
    by (rule lstrip_indent) (simp add: isspace_def)
  then show ?thesis by (simp add: indent_of_def)
qed

lemma deprecated_line_facts:
  "lstrip (indent_of l @ ''@Deprecated'' @ ''\<newline>'') = ''@Deprecated\<newline>''"
  "is_annotation (indent_of l @ ''@Deprecated'' @ ''\<newline>'')"
proof -
  have "lstrip (replicate (leading_spaces l) (CHR '' '') @ CHR ''@'' # ''Deprecated\<newline>'') = CHR ''@'' # ''Deprecated\<newline>''"
    by (rule lstrip_indent) (simp add: isspace_def)
  then show 1: "lstrip (indent_of l @ ''@Deprecated'' @ ''\<newline>'') = ''@Deprecated\<newline>''"
    by (simp add: indent_of_def)
  show "is_annotation (indent_of l @ ''@Deprecated'' @ ''\<newline>'')"
    unfolding is_annotation_def 1 by simp
qed

lemma indent_of_no_newline: "CHR 0x0A \<notin> set (indent_of l)"
  by (auto simp: indent_of_def)

text \<open>Adding to a header that is already there, or that an earlier call has written.\<close>

lemma add_javadoc_loop_extend:
  assumes seg: "is_segment S (P, x, A, l)"
      and R: "\<forall>r\<in>set R. \<not> matches S r"
      and body0: "\<forall>y\<in>set body0. \<not> matches S y"
      and oc: "\<not> matches S (indent_of l @ ''/**\<newline>'')" "\<not> matches S (indent_of l @ '' */\<newline>'')"
  shows "add_javadoc_loop S t c [] [] (P @ javadoc_header (indent_of l) body0 x @ A @ l # R)
       = Inr (P @ javadoc_header (indent_of l) (body0 @ content_lines (indent_of l) t c) x
                @ A @ l # R)"
proof (cases "strip x = ''*/''")
  case True
  have s: "is_segment S (P @ body0, x, A, l)" using seg body0 by auto
  show ?thesis
    using add_javadoc_loop_single[OF s R, of t c] True
    by (simp add: javadoc_header_def)
next
  case False
  have s: "is_segment S (P @ [x, indent_of l @ ''/**\<newline>''] @ body0, indent_of l @ '' */\<newline>'', A, l)"
    using seg body0 oc close_line_facts(3)[of l] by auto
  show ?thesis
    using add_javadoc_loop_single[OF s R, of t c] False close_line_facts(2)[of l]
    by (simp add: javadoc_header_def)
qed


lemma javadoc_header_terminated:
  assumes "terminated x" "\<forall>y\<in>set body. terminated y"
  shows "\<forall>y\<in>set (javadoc_header (indent_of l) body x). terminated y"
proof -
  have o: "terminated ((indent_of l @ ''/**'') @ ''\<newline>'')"
    by (intro terminatedI) (simp add: indent_of_no_newline)
  have c: "terminated ((indent_of l @ '' */'') @ ''\<newline>'')"
    by (intro terminatedI) (simp add: indent_of_no_newline)
  show ?thesis using assms o c by (auto simp: javadoc_header_def)
qed

lemma javadoc_header_no_match:
  assumes "plain_signature S" "\<not> matches S x" "\<forall>y\<in>set body. \<not> matches S y"
  shows "\<forall>y\<in>set (javadoc_header (indent_of l) body x). \<not> matches S y"
proof -
  have o: "\<not> matches S (indent_of l @ ''/**\<newline>'')"
    using plain_signature_no_match[OF assms(1) open_line_lstrip] by simp
  have c: "\<not> matches S (indent_of l @ '' */\<newline>'')"
    using plain_signature_no_match[OF assms(1) close_line_facts(1)] by simp
  show ?thesis using assms o c by (auto simp: javadoc_header_def)
qed

lemma javadoc_header_length:
  "length (concat (javadoc_header indent (body @ body') x))
     = length (concat (javadoc_header indent body x)) + length (concat body')"
  by (simp add: javadoc_header_def)

section \<open>Reading with universal newlines, writing and reading back\<close>

lemma universal_newlines_no_cr: "CHR 0x0D \<notin> set (universal_newlines s)"
  by (induction s rule: universal_newlines.induct) auto

lemma universal_newlines_id: "CHR 0x0D \<notin> set s \<Longrightarrow> universal_newlines s = s"
  by (induction s) auto

lemma universal_newlines_idem: "universal_newlines (universal_newlines s) = universal_newlines s"
  by (simp add: universal_newlines_id universal_newlines_no_cr)

lemma readlines_no_cr:
  "l \<in> set (readlines (universal_newlines F)) \<Longrightarrow> CHR 0x0D \<notin> set l"
proof -
  assume "l \<in> set (readlines (universal_newlines F))"
  then have "set l \<subseteq> set (concat (readlines (universal_newlines F)))" by auto
  then show ?thesis using universal_newlines_no_cr[of F] by (auto simp: concat_readlines)
qed

lemma splitlines_no_linebreak: "\<forall>c\<in>set (splitlines s). \<forall>ch\<in>set c. \<not> linebreak ch"
proof (induction s rule: splitlines.induct)
  case 1
  then show ?case by simp
next
  case (2 c cs)
  show ?case
  proof (cases "linebreak c")
    case True
    then show ?thesis using 2(1) by simp
  next
    case False
    then show ?thesis using 2(2) by (auto split: list.splits)
  qed
qed

lemma splitlines_no_cr: "\<forall>c\<in>set (splitlines s). CHR 0x0D \<notin> set c"
  using splitlines_no_linebreak[of s] by (auto simp: linebreak_def)

lemma content_lines_no_cr:
  assumes "CHR 0x0D \<notin> set indent" "CHR 0x0D \<notin> set t" "\<forall>c\<in>set cs. CHR 0x0D \<notin> set c"
  shows "\<forall>y\<in>set (content_lines indent t cs). CHR 0x0D \<notin> set y"
  using assms by (cases cs) auto

lemma javadoc_header_no_cr:
  assumes "CHR 0x0D \<notin> set x" "\<forall>y\<in>set body. CHR 0x0D \<notin> set y"
  shows "\<forall>y\<in>set (javadoc_header (indent_of l) body x). CHR 0x0D \<notin> set y"
  using assms by (auto simp: javadoc_header_def indent_of_def)

text \<open>Lines written in place of the first lines of a file read back as they are.\<close>

lemma readlines_rewritten:
  assumes "readlines (universal_newlines F) = Q0 @ q # qs"
      and "\<forall>y\<in>set Q. terminated y \<and> CHR 0x0D \<notin> set y"
  shows "readlines (universal_newlines (concat (Q @ q # qs))) = Q @ q # qs"
proof -
  have "\<forall>y\<in>set (q # qs). CHR 0x0D \<notin> set y"
    using readlines_no_cr[of _ F] assms(1) by auto
  then have "CHR 0x0D \<notin> set (concat (Q @ q # qs))"
    using assms(2) by auto
  then have 1: "universal_newlines (concat (Q @ q # qs)) = concat (Q @ q # qs)"
    by (rule universal_newlines_id)
  have tail: "readlines (concat (q # qs)) = q # qs"
    using readlines_split[OF assms(1)] by simp
  have "readlines (concat Q @ concat (q # qs)) = Q @ readlines (concat (q # qs))"
    using assms(2) by (intro readlines_concat_terminated) simp
  then show ?thesis unfolding 1 using tail by simp
qed

section \<open>Comment markers in the inserted lines\<close>

lemma adjacent_append:
  "adjacent a b (xs @ ys) \<longleftrightarrow>
     adjacent a b xs \<or> adjacent a b ys \<or> (xs \<noteq> [] \<and> ys \<noteq> [] \<and> last xs = a \<and> hd ys = b)"
proof (induction a b xs rule: adjacent.induct)
  case (1 a b)
  then show ?case by simp
next
  case (2 a b x)
  then show ?case by (cases ys) auto
next
  case (3 a b x y zs)
  then show ?case by auto
qed

lemma adjacent_set: "adjacent a b s \<Longrightarrow> a \<in> set s \<and> b \<in> set s"
  by (induction a b s rule: adjacent.induct) auto

lemma marker_in_line:
  assumes "CHR ''/'' \<notin> set pre" "pre \<noteq> []" "last pre \<noteq> CHR ''*''"
      and "comment_marker (pre @ tag @ CHR '' '' # c @ ''\<newline>'')"
  shows "comment_marker tag \<or> comment_marker c"
proof -
  have pre: "\<not> adjacent (CHR ''/'') (CHR ''*'') pre" "\<not> adjacent (CHR ''*'') (CHR ''/'') pre"
    using assms(1) adjacent_set by blast+
  have sp: "adjacent a b (CHR '' '' # c @ ''\<newline>'') \<longleftrightarrow> adjacent a b c"
    if "a \<noteq> CHR '' ''" "b \<noteq> CHR ''\<newline>''" for a b
    using that adjacent_append[of a b "'' ''" "c @ ''\<newline>''"] adjacent_append[of a b c "''\<newline>''"]
    by auto
  have mid: "adjacent a b (tag @ CHR '' '' # c @ ''\<newline>'') \<longleftrightarrow> adjacent a b tag \<or> adjacent a b c"
    if "a \<noteq> CHR '' ''" "b \<noteq> CHR ''\<newline>''" "b \<noteq> CHR '' ''" for a b
    using that sp[of a b] adjacent_append[of a b tag "CHR '' '' # c @ ''\<newline>''"] by auto
  have whole: "adjacent a b (pre @ tag @ CHR '' '' # c @ ''\<newline>'')
        \<longleftrightarrow> adjacent a b pre \<or> adjacent a b tag \<or> adjacent a b c"
    if "a \<noteq> CHR '' ''" "b \<noteq> CHR ''\<newline>''" "b \<noteq> CHR '' ''" "last pre \<noteq> a" for a b
    using that mid[of a b] adjacent_append[of a b pre "tag @ CHR '' '' # c @ ''\<newline>''"] by auto
  have "last pre \<noteq> CHR ''/''" using assms(1,2) last_in_set by metis
  then show ?thesis
    using assms(3,4) pre whole[of "CHR ''/''" "CHR ''*''"] whole[of "CHR ''*''" "CHR ''/''"]
    by (auto simp: comment_marker_def)
qed

lemma content_lines_explicit:
  "content_lines indent t content
     = (case content of [] \<Rightarrow> []
        | c # cs \<Rightarrow> (indent @ '' * @'' @ t @ '' '' @ c @ ''\<newline>'')
                    # map (\<lambda>d. indent @ '' *   '' @ d @ ''\<newline>'') cs)"
  by (cases content) simp_all

lemma content_lines_marker:
  assumes "y \<in> set (content_lines (replicate n (CHR '' '')) t content)" "comment_marker y"
  shows "comment_marker t \<or> (\<exists>c\<in>set content. comment_marker c)"
proof (cases content)
  case Nil
  with assms show ?thesis by simp
next
  case (Cons c1 cs)
  with assms(1) consider
      "y = (replicate n (CHR '' '') @ '' * @'') @ t @ CHR '' '' # c1 @ ''\<newline>''"
    | d where "d \<in> set cs" "y = (replicate n (CHR '' '') @ '' *  '') @ [] @ CHR '' '' # d @ ''\<newline>''"
    by auto
  then show ?thesis
  proof cases
    case 1
    have "comment_marker t \<or> comment_marker c1"
      by (rule marker_in_line[of "replicate n (CHR '' '') @ '' * @''"])
         (use assms(2) 1 in auto)
    then show ?thesis using Cons by auto
  next
    case 2
    have "comment_marker [] \<or> comment_marker d"
      by (rule marker_in_line[of "replicate n (CHR '' '') @ '' *  ''"])
         (use assms(2) 2 in auto)
    then show ?thesis using Cons 2(1) by (auto simp: comment_marker_def)
  qed
qed

section \<open>The lines read are kept\<close>








section \<open>\<^verbatim>\<open>deprecate_method\<close> as a composition\<close>

text \<open>\<^verbatim>\<open>deprecate_method\<close>, given what its call of \<^verbatim>\<open>add_javadoc\<close> writes.\<close>

lemma deprecate_after_javadoc:
  assumes rl: "readlines (universal_newlines F) = Q0 @ l # R"
      and jd: "add_javadoc_loop S ''deprecated'' (splitlines alternative) [] []
                 (readlines (universal_newlines F)) = Inr (Q @ l # R)"
      and Q: "\<forall>y\<in>set Q. terminated y \<and> CHR 0x0D \<notin> set y \<and> \<not> matches S y"
      and l: "matches S l"
      and R: "\<forall>r\<in>set R. \<not> matches S r"
  shows "deprecate_method F S alternative
           = Inr (concat (Q @ (indent_of l @ ''@Deprecated'' @ ''\<newline>'') # l # R))
       \<and> readlines (universal_newlines
            (concat (Q @ (indent_of l @ ''@Deprecated'' @ ''\<newline>'') # l # R)))
           = (Q @ [indent_of l @ ''@Deprecated'' @ ''\<newline>'']) @ l # R"
proof -
  let ?dep = "indent_of l @ ''@Deprecated'' @ ''\<newline>''"
  have Q_ok: "\<forall>y\<in>set Q. terminated y \<and> CHR 0x0D \<notin> set y" and Q_nm: "\<forall>y\<in>set Q. \<not> matches S y"
    using Q by auto
  have 1: "add_javadoc F S ''deprecated'' (splitlines alternative) = Inr (concat (Q @ l # R))"
    by (simp add: add_javadoc_def jd)
  have 2: "readlines (universal_newlines (concat (Q @ l # R))) = Q @ l # R"
    using rl Q_ok by (rule readlines_rewritten)
  have 3: "annotate_method (concat (Q @ l # R)) S ''@Deprecated'' = concat (Q @ ?dep # l # R)"
    using annotate_loop_single[OF Q_nm l R, of "''@Deprecated''"]
    by (simp only: annotate_method_def 2)
  have "terminated ((indent_of l @ ''@Deprecated'') @ ''\<newline>'')"
    by (intro terminatedI) (simp add: indent_of_no_newline)
  moreover have "CHR 0x0D \<notin> set ?dep" by (simp add: indent_of_def)
  ultimately have "\<forall>y\<in>set (Q @ [?dep]). terminated y \<and> CHR 0x0D \<notin> set y"
    using Q_ok by simp
  with rl have "readlines (universal_newlines (concat ((Q @ [?dep]) @ l # R)))
             = (Q @ [?dep]) @ l # R"
    by (rule readlines_rewritten)
  then have 4: "readlines (universal_newlines (concat (Q @ ?dep # l # R))) = (Q @ [?dep]) @ l # R"
    by simp
  have "deprecate_method F S alternative
      = Inr (annotate_method (concat (Q @ l # R)) S ''@Deprecated'')"
    unfolding deprecate_method_def 1 by simp
  then have "deprecate_method F S alternative = Inr (concat (Q @ ?dep # l # R))"
    by (simp only: 3)
  with 4 show ?thesis by blast
qed



section \<open>Claim C1: removing a method\<close>

text \<open>
  Claim C1, as the code has it. Let the lines of \<open>F\<close> be \<open>P\<close>, the line \<open>l\<close>, \<open>B\<close>, the
  line \<open>c\<close> and \<open>R\<close>, where \<open>l\<close> is the only line that matches the signature and \<open>c\<close> is
  the first line after \<open>l\<close> that begins with the group captured at \<open>l\<close> followed by a
  closing brace (whatever follows the brace on that line). Then \<^verbatim>\<open>remove_method\<close>
  writes exactly the lines \<open>P\<close> and \<open>R\<close>, in their order: the lines from \<open>l\<close> through
  \<open>c\<close> are removed and nothing else. The lines are written as they were read, that is
  with the line ends \<^verbatim>\<open>\r\n\<close> and \<^verbatim>\<open>\r\<close> of the file turned into \<^verbatim>\<open>\n\<close>.
\<close>

theorem remove_method_removes_block:
  assumes "readlines (universal_newlines F) = P @ l # B @ c # R"
      and "is_block signature l B c"
      and "\<forall>x\<in>set (P @ R). \<not> matches signature x"
  shows "remove_method F signature = concat (P @ R)"
proof -
  have P: "\<forall>p\<in>set P. \<not> matches signature p" and R: "\<forall>p\<in>set R. \<not> matches signature p"
    using assms(3) by auto
  have "remove_method_loop signature None [] (P @ l # B @ c # R)
      = remove_method_loop signature None ([] @ P) (l # B @ c # R)"
    using P by (rule remove_loop_outside)
  also have "\<dots> = remove_method_loop signature None P R"
    using remove_loop_block[OF assms(2)] by simp
  also have "\<dots> = P @ R"
    using remove_loop_outside[OF R, where L=P and fp="[]"] by simp
  finally show ?thesis by (simp add: remove_method_def assms(1))
qed

text \<open>The theorem at a file of six lines, the first ending in \<^verbatim>\<open>\r\n\<close>; the block ends
  at a line with a trailing comment.\<close>

theorem remove_method_removes_block_witness:
  "readlines (universal_newlines
      (''a'' @ [CHR 0x0D, CHR 0x0A] @ ''  void f() {\<newline>    x\<newline>  } // f\<newline>  void g() {\<newline>  }\<newline>''))
     = [''a\<newline>''] @ ''  void f() {\<newline>'' # [''    x\<newline>''] @ ''  } // f\<newline>''
         # [''  void g() {\<newline>'', ''  }\<newline>'']
   \<and> is_block ''void f()'' ''  void f() {\<newline>'' [''    x\<newline>''] ''  } // f\<newline>''
   \<and> \<not> matches ''void f()'' ''a\<newline>''
   \<and> \<not> matches ''void f()'' ''  void g() {\<newline>''
   \<and> \<not> matches ''void f()'' ''  }\<newline>''
   \<and> remove_method
         (''a'' @ [CHR 0x0D, CHR 0x0A] @ ''  void f() {\<newline>    x\<newline>  } // f\<newline>  void g() {\<newline>  }\<newline>'')
         ''void f()''
       = ''a\<newline>  void g() {\<newline>  }\<newline>''"
proof -
  have h1: "readlines (universal_newlines
      (''a'' @ [CHR 0x0D, CHR 0x0A] @ ''  void f() {\<newline>    x\<newline>  } // f\<newline>  void g() {\<newline>  }\<newline>''))
     = [''a\<newline>''] @ ''  void f() {\<newline>'' # [''    x\<newline>''] @ ''  } // f\<newline>''
         # [''  void g() {\<newline>'', ''  }\<newline>'']"
    by simp
  have h2: "is_block ''void f()'' ''  void f() {\<newline>'' [''    x\<newline>''] ''  } // f\<newline>''"
    by (simp add: evaluation)
  have h3: "\<forall>x\<in>set ([''a\<newline>''] @ [''  void g() {\<newline>'', ''  }\<newline>'']). \<not> matches ''void f()'' x"
    by (simp add: evaluation)
  from remove_method_removes_block[OF h1 h2 h3] h1 h2 h3 show ?thesis by simp
qed

text \<open>
  Claim C1 as stated fails, twice. In the first file below the signature matches the
  first line only, with group \<^verbatim>\<open>"  "\<close>; the first later line whose whole trimmed content
  is a closing brace, with that leading whitespace, is the fourth. The claim has all four
  lines removed; the code stops at the second line, which begins with the group and a
  closing brace, and keeps the last two. In the second file the line that is kept ends
  in \<^verbatim>\<open>\r\n\<close> and is written with \<^verbatim>\<open>\n\<close>: it is not byte-identical.
\<close>

theorem remove_method_closing_line_counterexample:
  "signature_match ''void f()'' ''  void f() {\<newline>'' = Some ''  ''
   \<and> signature_match ''void f()'' ''  } // f\<newline>'' = None
   \<and> signature_match ''void f()'' ''  void g() {\<newline>'' = None
   \<and> signature_match ''void f()'' ''  }\<newline>'' = None
   \<and> \<not> closing_line ''  '' ''  } // f\<newline>''
   \<and> \<not> closing_line ''  '' ''  void g() {\<newline>''
   \<and> closing_line ''  '' ''  }\<newline>''
   \<and> remove_method ''  void f() {\<newline>  } // f\<newline>  void g() {\<newline>  }\<newline>'' ''void f()''
       = ''  void g() {\<newline>  }\<newline>''
   \<and> signature_match ''void f()'' ''a\<newline>'' = None
   \<and> remove_method (''a'' @ [CHR 0x0D, CHR 0x0A] @ ''  void f() {\<newline>  }\<newline>'') ''void f()''
       = ''a\<newline>''"
  by (simp add: evaluation)

section \<open>Claim C2: copying and renaming a method\<close>

text \<open>
  Claim C2, as the code has it. Let the lines of \<open>F\<close> be \<open>P\<close>, the block \<open>l\<close>, \<open>B\<close>, \<open>c\<close>
  and \<open>R\<close>, where \<open>l\<close> is the only line that matches the signature. Then
  \<^verbatim>\<open>copy_and_rename_method\<close> writes \<open>P\<close>, the block unchanged, the line \<^verbatim>\<open>"\n"\<close>, the
  copy and \<open>R\<close>. In the copy only the signature line has gone through
  \<^verbatim>\<open>replace(before, after)\<close>; the body and the closing line are copied as they are.
\<close>

theorem copy_and_rename_method_copies_block:
  assumes "readlines (universal_newlines F) = P @ l # B @ c # R"
      and "is_block signature l B c"
      and "\<forall>x\<in>set (P @ R). \<not> matches signature x"
  shows "copy_and_rename_method F signature before_name after_name
       = concat (P @ (l # B @ [c]) @ [''\<newline>'']
                 @ (replace l before_name after_name # B @ [c]) @ R)"
proof -
  have P: "\<forall>p\<in>set P. \<not> matches signature p" and R: "\<forall>p\<in>set R. \<not> matches signature p"
    using assms(3) by auto
  let ?loop = "copy_and_rename_method_loop signature before_name after_name"
  let ?copy = "replace l before_name after_name # B @ [c]"
  have "?loop None [] [] (P @ l # B @ c # R) = ?loop None ([] @ P) [] (l # B @ c # R)"
    using P by (rule copy_loop_outside)
  also have "\<dots> = ?loop None (P @ l # B @ [c] @ [''\<newline>''] @ ?copy) ?copy R"
    using copy_loop_block[OF assms(2), where L=P and M="[]" and fp=R] by simp
  also have "\<dots> = (P @ l # B @ [c] @ [''\<newline>''] @ ?copy) @ R"
    using copy_loop_outside[OF R, where M="?copy" and fp="[]"] by simp
  finally show ?thesis by (simp add: copy_and_rename_method_def assms(1))
qed

text \<open>The theorem at a file of five lines whose block calls the method itself.\<close>

theorem copy_and_rename_method_copies_block_witness:
  "readlines (universal_newlines ''a\<newline>  void main() {\<newline>    main();\<newline>  }\<newline>z\<newline>'')
     = [''a\<newline>''] @ ''  void main() {\<newline>'' # [''    main();\<newline>''] @ ''  }\<newline>'' # [''z\<newline>'']
   \<and> is_block ''void main()'' ''  void main() {\<newline>'' [''    main();\<newline>''] ''  }\<newline>''
   \<and> \<not> matches ''void main()'' ''a\<newline>''
   \<and> \<not> matches ''void main()'' ''z\<newline>''
   \<and> copy_and_rename_method ''a\<newline>  void main() {\<newline>    main();\<newline>  }\<newline>z\<newline>''
         ''void main()'' ''main'' ''run''
       = ''a\<newline>  void main() {\<newline>    main();\<newline>  }\<newline>\<newline>  void run() {\<newline>    main();\<newline>  }\<newline>z\<newline>''"
proof -
  have h1: "readlines (universal_newlines ''a\<newline>  void main() {\<newline>    main();\<newline>  }\<newline>z\<newline>'')
     = [''a\<newline>''] @ ''  void main() {\<newline>'' # [''    main();\<newline>''] @ ''  }\<newline>'' # [''z\<newline>'']"
    by simp
  have h2: "is_block ''void main()'' ''  void main() {\<newline>'' [''    main();\<newline>''] ''  }\<newline>''"
    by (simp add: evaluation)
  have h3: "\<forall>x\<in>set ([''a\<newline>''] @ [''z\<newline>'']). \<not> matches ''void main()'' x"
    by (simp add: evaluation)
  from copy_and_rename_method_copies_block[OF h1 h2 h3, of "''main''" "''run''"] h1 h2 h3
  show ?thesis by simp
qed

text \<open>
  Claim C2 as stated fails: the body line of the copy below still reads
  \<^verbatim>\<open>main();\<close>, although \<^verbatim>\<open>replace\<close> would turn that line into \<^verbatim>\<open>run();\<close>.
\<close>

theorem copy_and_rename_method_body_counterexample:
  "copy_and_rename_method ''  void main() {\<newline>    main();\<newline>  }\<newline>'' ''void main()'' ''main'' ''run''
     = ''  void main() {\<newline>    main();\<newline>  }\<newline>\<newline>  void run() {\<newline>    main();\<newline>  }\<newline>''
   \<and> replace ''    main();\<newline>'' ''main'' ''run'' = ''    run();\<newline>''"
  by (simp add: evaluation)

section \<open>Claim C3: no line matches\<close>

text \<open>
  Claim C3, as the code has it. When no line of \<open>F\<close> matches the signature, each of
  \<^verbatim>\<open>remove_method\<close>, \<^verbatim>\<open>copy_and_rename_method\<close>, \<^verbatim>\<open>add_javadoc\<close>, \<^verbatim>\<open>annotate_method\<close>
  and \<^verbatim>\<open>deprecate_method\<close> writes back the content of \<open>F\<close> as it was read, that is with
  the line ends \<^verbatim>\<open>\r\n\<close> and \<^verbatim>\<open>\r\<close> turned into \<^verbatim>\<open>\n\<close>, and none raises. The output is
  exactly \<open>F\<close> when \<open>F\<close> has no carriage return.
\<close>

theorem no_match_rewrites_unchanged:
  assumes "\<forall>line\<in>set (readlines (universal_newlines F)). \<not> matches signature line"
  shows "remove_method F signature = universal_newlines F
       \<and> copy_and_rename_method F signature before_name after_name = universal_newlines F
       \<and> add_javadoc F signature javadoc_type content = Inr (universal_newlines F)
       \<and> annotate_method F signature annotation = universal_newlines F
       \<and> deprecate_method F signature alternative = Inr (universal_newlines F)
       \<and> (CHR 0x0D \<notin> set F \<longrightarrow> universal_newlines F = F)"
proof -
  let ?ls = "readlines (universal_newlines F)"
  have r: "remove_method_loop signature None [] ?ls = ?ls"
    using remove_loop_outside[OF assms, where L="[]" and fp="[]"] by simp
  have c: "copy_and_rename_method_loop signature before_name after_name None [] [] ?ls = ?ls"
    using copy_loop_outside[OF assms, where L="[]" and M="[]" and fp="[]"] by simp
  have j: "add_javadoc_loop signature t c' [] [] ?ls = Inr ?ls" for t c'
    using add_javadoc_loop_outside[OF assms, where L="[]" and fp="[]"] by simp
  have a: "annotate_method_loop signature ann [] ?ls = ?ls" for ann
    using annotate_loop_outside[OF assms, where L="[]" and fp="[]"] by simp
  have an: "annotate_method G signature ann = universal_newlines F"
    if "universal_newlines G = universal_newlines F" for G ann
    by (simp add: annotate_method_def that a concat_readlines)
  have jd: "add_javadoc F signature t c' = Inr (universal_newlines F)" for t c'
    by (simp add: add_javadoc_def j concat_readlines)
  have d: "deprecate_method F signature alternative = Inr (universal_newlines F)"
    by (simp add: deprecate_method_def jd an universal_newlines_idem)
  show ?thesis
    using d jd an[of F] universal_newlines_id[of F]
    by (simp add: remove_method_def copy_and_rename_method_def r c concat_readlines)
qed

text \<open>The theorem at a file of three lines without a carriage return.\<close>

theorem no_match_rewrites_unchanged_witness:
  "\<not> matches ''void f()'' ''class A {\<newline>''
   \<and> \<not> matches ''void f()'' ''  int x;\<newline>''
   \<and> \<not> matches ''void f()'' ''}\<newline>''
   \<and> CHR 0x0D \<notin> set ''class A {\<newline>  int x;\<newline>}\<newline>''
   \<and> remove_method ''class A {\<newline>  int x;\<newline>}\<newline>'' ''void f()'' = ''class A {\<newline>  int x;\<newline>}\<newline>''
   \<and> copy_and_rename_method ''class A {\<newline>  int x;\<newline>}\<newline>'' ''void f()'' ''f'' ''g''
       = ''class A {\<newline>  int x;\<newline>}\<newline>''
   \<and> add_javadoc ''class A {\<newline>  int x;\<newline>}\<newline>'' ''void f()'' ''since'' [''1.0'']
       = Inr ''class A {\<newline>  int x;\<newline>}\<newline>''
   \<and> annotate_method ''class A {\<newline>  int x;\<newline>}\<newline>'' ''void f()'' ''@Deprecated''
       = ''class A {\<newline>  int x;\<newline>}\<newline>''
   \<and> deprecate_method ''class A {\<newline>  int x;\<newline>}\<newline>'' ''void f()'' ''Use g.''
       = Inr ''class A {\<newline>  int x;\<newline>}\<newline>''"
proof -
  have m: "\<not> matches ''void f()'' ''class A {\<newline>''" "\<not> matches ''void f()'' ''  int x;\<newline>''"
    "\<not> matches ''void f()'' ''}\<newline>''"
    by (simp_all add: evaluation)
  then have h: "\<forall>line\<in>set (readlines (universal_newlines ''class A {\<newline>  int x;\<newline>}\<newline>'')).
                  \<not> matches ''void f()'' line"
    by simp
  have cr: "CHR 0x0D \<notin> set ''class A {\<newline>  int x;\<newline>}\<newline>''" by simp
  from no_match_rewrites_unchanged[OF h, of "''f''" "''g''" "''since''" "[''1.0'']"
      "''@Deprecated''" "''Use g.''"] m cr
  show ?thesis by simp
qed

text \<open>
  Claim C3 as stated fails: no line of the file below matches the signature, its lines
  end in \<^verbatim>\<open>\r\n\<close>, and \<^verbatim>\<open>remove_method\<close> writes them back with \<^verbatim>\<open>\n\<close>; the content
  written is not the input.
\<close>

theorem no_match_carriage_return_counterexample:
  "\<not> matches ''void f()'' ''a\<newline>''
   \<and> \<not> matches ''void f()'' ''b\<newline>''
   \<and> readlines (universal_newlines (''a'' @ [CHR 0x0D, CHR 0x0A] @ ''b'' @ [CHR 0x0D, CHR 0x0A]))
       = [''a\<newline>'', ''b\<newline>'']
   \<and> remove_method (''a'' @ [CHR 0x0D, CHR 0x0A] @ ''b'' @ [CHR 0x0D, CHR 0x0A]) ''void f()''
       = ''a\<newline>b\<newline>''
   \<and> ''a\<newline>b\<newline>'' \<noteq> ''a'' @ [CHR 0x0D, CHR 0x0A] @ ''b'' @ [CHR 0x0D, CHR 0x0A]"
  by (simp add: evaluation)

section \<open>Claim C4: a block that is never closed\<close>




section \<open>Claim C5: no exception from matching\<close>

text \<open>
  Claim C5 asks that no editor operation raises, in particular \<^verbatim>\<open>add_javadoc\<close> when the
  matching line is the first line of the file. The code raises \<^verbatim>\<open>IndexError\<close> there:
  \<^verbatim>\<open>lines.pop()\<close> finds \<^verbatim>\<open>lines\<close> empty. It raises as well when annotation lines reach
  up to the first line of the file, and \<^verbatim>\<open>deprecate_method\<close> raises with it.
\<close>

theorem add_javadoc_first_line_raises:
  "add_javadoc ''void f() {\<newline>}\<newline>'' ''void f()'' ''deprecated'' [''Use g.''] = Inl IndexError
   \<and> add_javadoc ''@Override\<newline>void f() {\<newline>}\<newline>'' ''void f()'' ''deprecated'' [''Use g.'']
       = Inl IndexError
   \<and> deprecate_method ''void f() {\<newline>}\<newline>'' ''void f()'' ''Use g.'' = Inl IndexError"
  by (simp add: evaluation collect_annotations.simps)

section \<open>Claim C6: more than one matching line\<close>




section \<open>Claim C7: extending an existing comment\<close>

text \<open>
  Claim C7, as the code has it. Let \<open>l\<close> be the only line of \<open>F\<close> that matches the
  signature, let the annotation lines \<open>A\<close> stand directly above it and above them a line
  \<open>x\<close> whose trimmed content is \<^verbatim>\<open>*/\<close>. Then \<^verbatim>\<open>add_javadoc\<close> writes the tagged content
  lines directly before \<open>x\<close>, the lines \<open>A\<close> in their order directly above \<open>l\<close>, and
  every other line where it was. The tagged content lines are: for the first content
  line, the indentation, \<^verbatim>\<open>" * @"\<close>, the tag, a space, the content line and a newline;
  for every further one, the indentation, \<^verbatim>\<open>" *   "\<close>, the content line and a newline.
  Nothing else is inserted, and an inserted line contains a comment marker only when
  the tag or a content line contains one.
\<close>

theorem add_javadoc_extends_existing_comment:
  assumes "readlines (universal_newlines F) = P @ x # A @ l # R"
      and "is_segment signature (P, x, A, l)"
      and "\<forall>r\<in>set R. \<not> matches signature r"
      and "strip x = ''*/''"
  shows "let indent = replicate (length (takeWhile isspace l)) (CHR '' '');
             inserted = (case content of
                           [] \<Rightarrow> []
                         | c # cs \<Rightarrow>
                             (indent @ '' * @'' @ javadoc_type @ '' '' @ c @ ''\<newline>'')
                             # map (\<lambda>d. indent @ '' *   '' @ d @ ''\<newline>'') cs)
         in add_javadoc F signature javadoc_type content
              = Inr (concat (P @ inserted @ x # A @ l # R))
          \<and> (\<forall>y\<in>set inserted. comment_marker y \<longrightarrow>
                comment_marker javadoc_type \<or> (\<exists>c\<in>set content. comment_marker c))"
proof -
  have ind: "replicate (length (takeWhile isspace l)) (CHR '' '') = indent_of l"
    by (simp add: indent_of_def leading_spaces_takeWhile)
  have 1: "add_javadoc F signature javadoc_type content
           = Inr (concat (P @ content_lines (indent_of l) javadoc_type content @ x # A @ l # R))"
    using add_javadoc_loop_single[OF assms(2,3)] assms(4)
    by (simp add: add_javadoc_def assms(1) javadoc_header_def)
  have 2: "\<forall>y\<in>set (content_lines (indent_of l) javadoc_type content). comment_marker y \<longrightarrow>
                comment_marker javadoc_type \<or> (\<exists>c\<in>set content. comment_marker c)"
    unfolding indent_of_def using content_lines_marker by blast
  show ?thesis
    unfolding Let_def ind content_lines_explicit[symmetric]
    using 1 2 by (intro conjI)
qed

text \<open>The theorem at a method with a comment and one annotation.\<close>

theorem add_javadoc_extends_existing_comment_witness:
  "readlines (universal_newlines ''class A {\<newline>  /** doc\<newline>   */\<newline>  @A\<newline>  void f() {\<newline>  }\<newline>'')
     = [''class A {\<newline>'', ''  /** doc\<newline>''] @ ''   */\<newline>'' # [''  @A\<newline>''] @ ''  void f() {\<newline>'' # [''  }\<newline>'']
   \<and> is_segment ''void f()''
         ([''class A {\<newline>'', ''  /** doc\<newline>''], ''   */\<newline>'', [''  @A\<newline>''], ''  void f() {\<newline>'')
   \<and> \<not> matches ''void f()'' ''  }\<newline>''
   \<and> strip ''   */\<newline>'' = ''*/''
   \<and> add_javadoc ''class A {\<newline>  /** doc\<newline>   */\<newline>  @A\<newline>  void f() {\<newline>  }\<newline>''
         ''void f()'' ''since'' [''1.0'', ''or later'']
       = Inr ''class A {\<newline>  /** doc\<newline>   * @since 1.0\<newline>   *   or later\<newline>   */\<newline>  @A\<newline>  void f() {\<newline>  }\<newline>''
   \<and> \<not> comment_marker ''   * @since 1.0\<newline>''
   \<and> \<not> comment_marker ''   *   or later\<newline>''"
proof -
  have h1: "readlines (universal_newlines ''class A {\<newline>  /** doc\<newline>   */\<newline>  @A\<newline>  void f() {\<newline>  }\<newline>'')
     = [''class A {\<newline>'', ''  /** doc\<newline>''] @ ''   */\<newline>'' # [''  @A\<newline>''] @ ''  void f() {\<newline>'' # [''  }\<newline>'']"
    by simp
  have h2: "is_segment ''void f()''
         ([''class A {\<newline>'', ''  /** doc\<newline>''], ''   */\<newline>'', [''  @A\<newline>''], ''  void f() {\<newline>'')"
    by (simp add: evaluation)
  have r: "\<not> matches ''void f()'' ''  }\<newline>''" by (simp add: evaluation)
  then have h3: "\<forall>r\<in>set [''  }\<newline>'']. \<not> matches ''void f()'' r" by simp
  have h4: "strip ''   */\<newline>'' = ''*/''" by (simp add: evaluation)
  have m: "\<not> comment_marker ''since''" "\<not> comment_marker ''1.0''" "\<not> comment_marker ''or later''"
    by (simp_all add: comment_marker_def)
  from add_javadoc_extends_existing_comment[OF h1 h2 h3 h4, of "''since''" "[''1.0'', ''or later'']"] h1 h2 r h4 m
  show ?thesis by (simp add: Let_def isspace_def)
qed

text \<open>
  Claim C7 as stated fails: with the content line \<^verbatim>\<open>*/\<close> the inserted line holds a new
  comment-close marker.
\<close>

theorem content_marker_counterexample:
  "strip ''   */\<newline>'' = ''*/''
   \<and> add_javadoc ''class A {\<newline>  /** doc\<newline>   */\<newline>  void f() {\<newline>  }\<newline>'' ''void f()'' ''since'' [''*/'']
       = Inr ''class A {\<newline>  /** doc\<newline>   * @since */\<newline>   */\<newline>  void f() {\<newline>  }\<newline>''
   \<and> comment_marker ''   * @since */\<newline>''"
  by (simp add: evaluation collect_annotations.simps comment_marker_def)

section \<open>Claim C8: the indentation of inserted lines\<close>




section \<open>Claim C9: deprecating a method, once and twice\<close>

text \<open>
  Claim C9, as the code has it. Let \<open>l\<close> be the only line of \<open>F\<close> that matches the
  signature, with the annotation lines \<open>A\<close> above it and a line \<open>x\<close> that is not an
  annotation line above them, let the signature start like a declaration and let
  \<^verbatim>\<open>alternative\<close> have the lines \<open>c\<close> and \<open>cs\<close>. One call of \<^verbatim>\<open>deprecate_method\<close> adds
  exactly one documentation note, in the comment that \<open>x\<close> closes or else in a new
  comment after \<open>x\<close>, and exactly one \<^verbatim>\<open>@Deprecated\<close> line directly above \<open>l\<close>. The note
  is one line tagged \<^verbatim>\<open>@deprecated\<close> holding \<open>c\<close> and one continuation line for every
  line of \<open>cs\<close>. A second call with the same arguments on the result adds the note a
  second time to that comment and a second \<^verbatim>\<open>@Deprecated\<close> line, so the second result
  differs from the first: the operation is not idempotent.
\<close>

theorem deprecate_method_twice_duplicates:
  assumes "readlines (universal_newlines F) = P @ x # A @ l # R"
      and "is_segment signature (P, x, A, l)"
      and "\<forall>r\<in>set R. \<not> matches signature r"
      and "plain_signature signature"
      and "splitlines alternative = c # cs"
  shows "let indent = replicate (length (takeWhile isspace l)) (CHR '' '');
             doc_note = (indent @ '' * @deprecated '' @ c @ ''\<newline>'')
                        # map (\<lambda>d. indent @ '' *   '' @ d @ ''\<newline>'') cs;
             marker = indent @ ''@Deprecated\<newline>'';
             once = concat (P @ javadoc_header indent doc_note x @ A @ [marker] @ l # R);
             twice = concat (P @ javadoc_header indent (doc_note @ doc_note) x
                               @ A @ [marker, marker] @ l # R)
         in deprecate_method F signature alternative = Inr once
          \<and> deprecate_method once signature alternative = Inr twice
          \<and> twice \<noteq> once"
proof -
  have ind: "replicate (length (takeWhile isspace l)) (CHR '' '') = indent_of l"
    by (simp add: indent_of_def leading_spaces_takeWhile)
  define doc_note where "doc_note = content_lines (indent_of l) ''deprecated'' (splitlines alternative)"
  define marker where "marker = indent_of l @ ''@Deprecated'' @ ''\<newline>''"
  define once where "once = concat (P @ javadoc_header (indent_of l) doc_note x @ A @ [marker] @ l # R)"
  define twice where
    "twice = concat (P @ javadoc_header (indent_of l) (doc_note @ doc_note) x @ A @ [marker, marker] @ l # R)"
  have nm: "\<forall>p\<in>set (P @ x # A). \<not> matches signature p" and x: "\<not> is_annotation x"
    and A: "\<forall>a\<in>set A. is_annotation a" and l: "matches signature l"
    using assms(2) by auto
  have tm: "\<forall>y\<in>set (P @ x # A). terminated y"
    using readlines_split[of "universal_newlines F" "P @ x # A" l R] assms(1) by simp
  have cr: "\<forall>y\<in>set (P @ x # A). CHR 0x0D \<notin> set y"
    using readlines_no_cr[of _ F] assms(1) by auto
  have oc: "\<not> matches signature (indent_of l @ ''/**\<newline>'')"
           "\<not> matches signature (indent_of l @ '' */\<newline>'')"
    using plain_signature_no_match[OF assms(4) open_line_lstrip]
      plain_signature_no_match[OF assms(4) close_line_facts(1)] by simp_all
  have doc_nm: "\<forall>y\<in>set doc_note. \<not> matches signature y"
  proof
    fix y assume "y \<in> set doc_note"
    then obtain s where "lstrip y = CHR ''*'' # CHR '' '' # s"
      unfolding doc_note_def indent_of_def using content_lines_lstrip by blast
    then show "\<not> matches signature y" using plain_signature_no_match[OF assms(4)] by simp
  qed
  have doc_tm: "\<forall>y\<in>set doc_note. terminated y"
    unfolding doc_note_def
    by (rule content_lines_terminated) (simp_all add: indent_of_no_newline splitlines_no_newline)
  have doc_cr: "\<forall>y\<in>set doc_note. CHR 0x0D \<notin> set y"
    unfolding doc_note_def
    by (rule content_lines_no_cr) (simp_all add: indent_of_def splitlines_no_cr)
  have marker_nm: "\<not> matches signature marker"
    unfolding marker_def
    using plain_signature_no_match[OF assms(4) deprecated_line_facts(1)] by simp
  have marker_ann: "is_annotation marker"
    unfolding marker_def by (rule deprecated_line_facts(2))
  have H: "\<forall>y\<in>set (javadoc_header (indent_of l) body x).
             terminated y \<and> CHR 0x0D \<notin> set y \<and> \<not> matches signature y"
    if "\<forall>y\<in>set body. terminated y \<and> CHR 0x0D \<notin> set y \<and> \<not> matches signature y" for body
    using javadoc_header_terminated[of x body l] javadoc_header_no_cr[of x body l]
      javadoc_header_no_match[OF assms(4), of x body l] tm cr nm that by auto
  \<comment> \<open>the first call\<close>
  have jd1: "add_javadoc_loop signature ''deprecated'' (splitlines alternative) [] []
               (readlines (universal_newlines F))
           = Inr ((P @ javadoc_header (indent_of l) doc_note x @ A) @ l # R)"
    using add_javadoc_loop_single[OF assms(2,3), of "''deprecated''" "splitlines alternative"]
    by (simp add: assms(1) doc_note_def)
  have Q1: "\<forall>y\<in>set (P @ javadoc_header (indent_of l) doc_note x @ A).
              terminated y \<and> CHR 0x0D \<notin> set y \<and> \<not> matches signature y"
    using H[of doc_note] doc_tm doc_cr doc_nm tm cr nm by auto
  have rl0: "readlines (universal_newlines F) = (P @ x # A) @ l # R" using assms(1) by simp
  from deprecate_after_javadoc[OF rl0 jd1 Q1 l assms(3)]
  have first: "deprecate_method F signature alternative = Inr once"
    and rl1: "readlines (universal_newlines once)
                = (P @ javadoc_header (indent_of l) doc_note x @ A @ [marker]) @ l # R"
    by (simp_all add: once_def marker_def)
  \<comment> \<open>the second call\<close>
  have seg2: "is_segment signature (P, x, A @ [marker], l)"
    using assms(2) marker_nm marker_ann by simp
  have jd2: "add_javadoc_loop signature ''deprecated'' (splitlines alternative) [] []
               (readlines (universal_newlines once))
           = Inr ((P @ javadoc_header (indent_of l) (doc_note @ doc_note) x @ A @ [marker]) @ l # R)"
    using add_javadoc_loop_extend[OF seg2 assms(3) doc_nm oc,
        of "''deprecated''" "splitlines alternative"]
    by (simp add: rl1 doc_note_def)
  have marker_tm: "terminated marker"
    unfolding marker_def using terminatedI[of "indent_of l @ ''@Deprecated''"]
    by (simp add: indent_of_no_newline)
  have marker_cr: "CHR 0x0D \<notin> set marker"
    by (simp add: marker_def indent_of_def)
  have Q2: "\<forall>y\<in>set (P @ javadoc_header (indent_of l) (doc_note @ doc_note) x @ A @ [marker]).
              terminated y \<and> CHR 0x0D \<notin> set y \<and> \<not> matches signature y"
    using H[of "doc_note @ doc_note"] doc_tm doc_cr doc_nm tm cr nm marker_tm marker_cr marker_nm
    by auto
  from deprecate_after_javadoc[OF rl1 jd2 Q2 l assms(3)]
  have second: "deprecate_method once signature alternative = Inr twice"
    by (simp add: twice_def marker_def)
  have "length twice = length once + length (concat doc_note) + length marker"
    by (simp add: twice_def once_def javadoc_header_length)
  moreover have "0 < length marker" by (simp add: marker_def)
  ultimately have ne: "twice \<noteq> once" by auto
  have dn: "doc_note = (indent_of l @ '' * @deprecated '' @ c @ ''\<newline>'')
                        # map (\<lambda>d. indent_of l @ '' *   '' @ d @ ''\<newline>'') cs"
    by (simp add: doc_note_def assms(5))
  have mk: "marker = indent_of l @ ''@Deprecated\<newline>''" by (simp add: marker_def)
  show ?thesis
    unfolding Let_def ind dn[symmetric] mk[symmetric] once_def[symmetric] twice_def[symmetric]
    using first second ne by (intro conjI)
qed

text \<open>The theorem at a method with one annotation and no comment.\<close>

theorem deprecate_method_twice_duplicates_witness:
  "readlines (universal_newlines ''class A {\<newline>  @A\<newline>  void f() {\<newline>  }\<newline>'')
     = [] @ ''class A {\<newline>'' # [''  @A\<newline>''] @ ''  void f() {\<newline>'' # [''  }\<newline>'']
   \<and> is_segment ''void f()'' ([], ''class A {\<newline>'', [''  @A\<newline>''], ''  void f() {\<newline>'')
   \<and> \<not> matches ''void f()'' ''  }\<newline>''
   \<and> plain_signature ''void f()''
   \<and> splitlines ''Use g.\<newline>Soon.'' = ''Use g.'' # [''Soon.'']
   \<and> deprecate_method ''class A {\<newline>  @A\<newline>  void f() {\<newline>  }\<newline>'' ''void f()'' ''Use g.\<newline>Soon.''
       = Inr ''class A {\<newline>  /**\<newline>   * @deprecated Use g.\<newline>   *   Soon.\<newline>   */\<newline>  @A\<newline>  @Deprecated\<newline>  void f() {\<newline>  }\<newline>''
   \<and> deprecate_method
         ''class A {\<newline>  /**\<newline>   * @deprecated Use g.\<newline>   *   Soon.\<newline>   */\<newline>  @A\<newline>  @Deprecated\<newline>  void f() {\<newline>  }\<newline>''
         ''void f()'' ''Use g.\<newline>Soon.''
       = Inr ''class A {\<newline>  /**\<newline>   * @deprecated Use g.\<newline>   *   Soon.\<newline>   * @deprecated Use g.\<newline>   *   Soon.\<newline>   */\<newline>  @A\<newline>  @Deprecated\<newline>  @Deprecated\<newline>  void f() {\<newline>  }\<newline>''"
proof -
  have h1: "readlines (universal_newlines ''class A {\<newline>  @A\<newline>  void f() {\<newline>  }\<newline>'')
     = [] @ ''class A {\<newline>'' # [''  @A\<newline>''] @ ''  void f() {\<newline>'' # [''  }\<newline>'']"
    by simp
  have h2: "is_segment ''void f()'' ([], ''class A {\<newline>'', [''  @A\<newline>''], ''  void f() {\<newline>'')"
    by (simp add: evaluation)
  have r: "\<not> matches ''void f()'' ''  }\<newline>''" by (simp add: evaluation)
  then have h3: "\<forall>r\<in>set [''  }\<newline>'']. \<not> matches ''void f()'' r" by simp
  have h4: "plain_signature ''void f()''" by (simp add: evaluation)
  have h5: "splitlines ''Use g.\<newline>Soon.'' = ''Use g.'' # [''Soon.'']" by (simp add: linebreak_def)
  from deprecate_method_twice_duplicates[OF h1 h2 h3 h4 h5] h1 h2 r h4 h5
  show ?thesis by (simp add: Let_def isspace_def strip_def javadoc_header_def)
qed

text \<open>
  Claim C9 as stated fails. In the first file below the signature matches two lines,
  and one call adds two notes and two \<^verbatim>\<open>@Deprecated\<close> lines. On the second file the
  note is empty, and one call adds a comment without a \<^verbatim>\<open>@deprecated\<close> entry.
\<close>

theorem deprecate_method_two_matches_counterexample:
  "matches ''void f()'' ''  void f() {\<newline>''
   \<and> matches ''void f()'' ''  void f() { }\<newline>''
   \<and> deprecate_method ''class A {\<newline>  void f() {\<newline>  }\<newline>  void f() { }\<newline>}\<newline>'' ''void f()'' ''Use g.''
       = Inr ''class A {\<newline>  /**\<newline>   * @deprecated Use g.\<newline>   */\<newline>  @Deprecated\<newline>  void f() {\<newline>  }\<newline>  /**\<newline>   * @deprecated Use g.\<newline>   */\<newline>  @Deprecated\<newline>  void f() { }\<newline>}\<newline>''
   \<and> deprecate_method ''class A {\<newline>  void f() {\<newline>  }\<newline>}\<newline>'' ''void f()'' []
       = Inr ''class A {\<newline>  /**\<newline>   */\<newline>  @Deprecated\<newline>  void f() {\<newline>  }\<newline>}\<newline>''"
  by (simp add: evaluation collect_annotations.simps)

section \<open>Claim C10: annotations of earlier matches\<close>



end
